theory Spec2Isabelle
  imports Main "HOL-Library.Word"
begin

unbundle bit_operations_syntax

section \<open>Python strings\<close>

text \<open>
  The program is \<^verbatim>\<open>src/markdown2html.py\<close>. A Python \<^verbatim>\<open>str\<close> is a sequence of code
  points; the model takes the code points below 256, one \<^typ>\<open>char\<close> each, so a
  \<^typ>\<open>string\<close> is a Python string of that range. The regular expressions of the
  program use ASCII delimiters only, and \<^verbatim>\<open>.\<close> matches every character but the line
  feed.
\<close>

definition newline :: char where
  "newline = CHR 0x0A"

definition isspace :: "char \<Rightarrow> bool" where
  \<comment> \<open>\<^verbatim>\<open>str.isspace\<close> on one code point below 256: TAB, LF, VT, FF, CR, the four
      separators FS, GS, RS, US, the space, NEL (0x85) and the no-break space (0xA0).\<close>
  "isspace c = (let n = (of_char c :: nat) in
     (9 \<le> n \<and> n \<le> 13) \<or> (28 \<le> n \<and> n \<le> 32) \<or> n = 133 \<or> n = 160)"

definition lstrip :: "string \<Rightarrow> string" where
  "lstrip s = dropWhile isspace s"

definition rstrip :: "string \<Rightarrow> string" where
  "rstrip s = rev (dropWhile isspace (rev s))"

definition strip :: "string \<Rightarrow> string" where
  \<comment> \<open>\<^verbatim>\<open>str.strip()\<close>: whitespace removed at both ends.\<close>
  "strip s = rstrip (lstrip s)"

definition startswith :: "string \<Rightarrow> string \<Rightarrow> bool" where
  \<comment> \<open>\<^verbatim>\<open>s.startswith(p)\<close>\<close>
  "startswith s p = (take (length p) s = p)"

fun join :: "string \<Rightarrow> string list \<Rightarrow> string" where
  \<comment> \<open>\<^verbatim>\<open>sep.join(xs)\<close>\<close>
  "join sep [] = []"
| "join sep [x] = x"
| "join sep (x # y # xs) = x @ sep @ join sep (y # xs)"

fun format_str :: "string \<Rightarrow> string \<Rightarrow> string" where
  \<comment> \<open>\<^verbatim>\<open>template.format(arg)\<close> for a template with one replacement field \<^verbatim>\<open>{}\<close> and no
      other brace, as every value of \<^verbatim>\<open>heading_levels\<close> is: the field is replaced by
      the argument, the text around it is copied.\<close>
  "format_str (a # b # rest) arg =
     (if a = CHR ''{'' \<and> b = CHR ''}'' then arg @ rest else a # format_str (b # rest) arg)"
| "format_str [a] arg = [a]"
| "format_str [] arg = []"

section \<open>The regular expressions\<close>

text \<open>
  Each of the four patterns has the shape \<^verbatim>\<open>AA(.*?)BB\<close> with \<^verbatim>\<open>A\<close> and \<^verbatim>\<open>B\<close> one literal
  character each: \<^verbatim>\<open>\*\*(.*?)\*\*\<close>, \<^verbatim>\<open>__(.*?)__\<close>, \<^verbatim>\<open>\[\[(.*?)\]\]\<close> and \<^verbatim>\<open>\(\((.*?)\)\)\<close>.
  \<open>find_close b s\<close> matches \<^verbatim>\<open>(.*?)BB\<close> at the start of \<open>s\<close>: the group is the
  shortest prefix without a line feed that is followed by \<^verbatim>\<open>BB\<close>; the result is the
  group and the text after the match, or \<open>None\<close> when there is no match.
\<close>

fun find_close :: "char \<Rightarrow> string \<Rightarrow> (string \<times> string) option" where
  "find_close b (x # y # rest) =
     (if x = b \<and> y = b then Some ([], rest)
      else if x = newline then None
      else map_option (\<lambda>(g, r). (x # g, r)) (find_close b (y # rest)))"
| "find_close b [x] = None"
| "find_close b [] = None"

lemma find_close_length:
  "find_close b s = Some (g, r) \<Longrightarrow> length r < length s"
proof (induction b s arbitrary: g rule: find_close.induct)
  case (1 b x y rest)
  then show ?case
    by (fastforce split: if_splits)
qed simp_all

text \<open>
  \<open>re_sub a b repl s\<close> is \<^verbatim>\<open>re.sub(r'AA(.*?)BB', repl, s)\<close>: the matches are found from
  left to right and do not overlap; each is replaced by \<open>repl\<close> of its group; where
  no match starts, the character is copied and the search goes on one character
  further.
\<close>

function re_sub :: "char \<Rightarrow> char \<Rightarrow> (string \<Rightarrow> string) \<Rightarrow> string \<Rightarrow> string" where
  "re_sub a b repl (x # y # rest) =
     (if x = a \<and> y = a then
        (case find_close b rest of
           Some (g, rest') \<Rightarrow> repl g @ re_sub a b repl rest'
         | None \<Rightarrow> x # re_sub a b repl (y # rest))
      else x # re_sub a b repl (y # rest))"
| "re_sub a b repl [x] = [x]"
| "re_sub a b repl [] = []"
  by pat_completeness auto
termination
  by (relation "measure (\<lambda>(a, b, repl, s). length s)")
     (auto dest: find_close_length)

section \<open>MD5\<close>

text \<open>
  \<^verbatim>\<open>hashlib.md5(content.encode()).hexdigest()\<close>: the string is encoded as UTF-8, the
  bytes are hashed by the MD5 algorithm (RFC 1321, the algorithm of Python's
  \<^verbatim>\<open>hashlib\<close>), and the 16 bytes of the digest are written as 32 lowercase
  hexadecimal digits.
\<close>

type_synonym byte = "8 word"
type_synonym u32 = "32 word"

definition encode_char :: "char \<Rightarrow> byte list" where
  \<comment> \<open>UTF-8 of one code point below 256: one byte below 128, two bytes from 128 on.\<close>
  "encode_char c = (let n = (of_char c :: nat) in
     if n < 128 then [of_nat n] else [of_nat (192 + n div 64), of_nat (128 + n mod 64)])"

definition encode :: "string \<Rightarrow> byte list" where
  "encode s = concat (map encode_char s)"

definition md5_K :: "u32 list" where
  "md5_K = [
    0xd76aa478, 0xe8c7b756, 0x242070db, 0xc1bdceee,
    0xf57c0faf, 0x4787c62a, 0xa8304613, 0xfd469501,
    0x698098d8, 0x8b44f7af, 0xffff5bb1, 0x895cd7be,
    0x6b901122, 0xfd987193, 0xa679438e, 0x49b40821,
    0xf61e2562, 0xc040b340, 0x265e5a51, 0xe9b6c7aa,
    0xd62f105d, 0x02441453, 0xd8a1e681, 0xe7d3fbc8,
    0x21e1cde6, 0xc33707d6, 0xf4d50d87, 0x455a14ed,
    0xa9e3e905, 0xfcefa3f8, 0x676f02d9, 0x8d2a4c8a,
    0xfffa3942, 0x8771f681, 0x6d9d6122, 0xfde5380c,
    0xa4beea44, 0x4bdecfa9, 0xf6bb4b60, 0xbebfbc70,
    0x289b7ec6, 0xeaa127fa, 0xd4ef3085, 0x04881d05,
    0xd9d4d039, 0xe6db99e5, 0x1fa27cf8, 0xc4ac5665,
    0xf4292244, 0x432aff97, 0xab9423a7, 0xfc93a039,
    0x655b59c3, 0x8f0ccc92, 0xffeff47d, 0x85845dd1,
    0x6fa87e4f, 0xfe2ce6e0, 0xa3014314, 0x4e0811a1,
    0xf7537e82, 0xbd3af235, 0x2ad7d2bb, 0xeb86d391]"

definition md5_s :: "nat list" where
  "md5_s = [7, 12, 17, 22, 7, 12, 17, 22, 7, 12, 17, 22, 7, 12, 17, 22,
            5, 9, 14, 20, 5, 9, 14, 20, 5, 9, 14, 20, 5, 9, 14, 20,
            4, 11, 16, 23, 4, 11, 16, 23, 4, 11, 16, 23, 4, 11, 16, 23,
            6, 10, 15, 21, 6, 10, 15, 21, 6, 10, 15, 21, 6, 10, 15, 21]"

definition rotl :: "u32 \<Rightarrow> nat \<Rightarrow> u32" where
  "rotl x n = push_bit n x OR drop_bit (32 - n) x"

definition md5_pad :: "byte list \<Rightarrow> byte list" where
  \<comment> \<open>The byte 0x80, zero bytes up to 56 modulo 64, then the length in bits as 8 bytes,
      the low byte first.\<close>
  "md5_pad msg = (let n = length msg in
     msg @ [0x80] @ replicate ((119 - n mod 64) mod 64) 0
         @ map (\<lambda>i. ucast (drop_bit (8 * i) (word_of_nat (8 * n) :: 64 word))) [0..<8])"

fun le_word :: "byte list \<Rightarrow> u32" where
  "le_word [] = 0"
| "le_word (b # bs) = ucast b OR push_bit 8 (le_word bs)"

fun words_of :: "nat \<Rightarrow> byte list \<Rightarrow> u32 list" where
  "words_of 0 bs = []"
| "words_of (Suc k) bs = le_word (take 4 bs) # words_of k (drop 4 bs)"

definition md5_step ::
    "u32 list \<Rightarrow> u32 \<times> u32 \<times> u32 \<times> u32 \<Rightarrow> nat \<Rightarrow> u32 \<times> u32 \<times> u32 \<times> u32" where
  "md5_step M st i = (case st of (a, b, c, d) \<Rightarrow>
     (let (f, g) =
        (if i < 16 then ((b AND c) OR (NOT b AND d), i)
         else if i < 32 then ((d AND b) OR (NOT d AND c), (5 * i + 1) mod 16)
         else if i < 48 then (b XOR c XOR d, (3 * i + 5) mod 16)
         else (c XOR (b OR NOT d), (7 * i) mod 16));
        f' = f + a + md5_K ! i + M ! g
      in (d, b + rotl f' (md5_s ! i), b, c)))"

definition md5_block ::
    "u32 \<times> u32 \<times> u32 \<times> u32 \<Rightarrow> byte list \<Rightarrow> u32 \<times> u32 \<times> u32 \<times> u32" where
  "md5_block st blk = (case st of (a0, b0, c0, d0) \<Rightarrow>
     (case foldl (md5_step (words_of 16 blk)) st [0..<64] of (a, b, c, d) \<Rightarrow>
        (a0 + a, b0 + b, c0 + c, d0 + d)))"

fun md5_blocks ::
    "nat \<Rightarrow> u32 \<times> u32 \<times> u32 \<times> u32 \<Rightarrow> byte list \<Rightarrow> u32 \<times> u32 \<times> u32 \<times> u32" where
  "md5_blocks 0 st bs = st"
| "md5_blocks (Suc k) st bs = md5_blocks k (md5_block st (take 64 bs)) (drop 64 bs)"

definition le_bytes :: "u32 \<Rightarrow> byte list" where
  "le_bytes w = map (\<lambda>i. ucast (drop_bit (8 * i) w)) [0..<4]"

definition md5_digest :: "byte list \<Rightarrow> byte list" where
  "md5_digest msg = (let p = md5_pad msg in
     case md5_blocks (length p div 64) (0x67452301, 0xefcdab89, 0x98badcfe, 0x10325476) p of
       (a, b, c, d) \<Rightarrow> le_bytes a @ le_bytes b @ le_bytes c @ le_bytes d)"

definition hex_digit :: "nat \<Rightarrow> char" where
  "hex_digit n = (if n < 10 then char_of (48 + n) else char_of (87 + n))"

definition hex_byte :: "byte \<Rightarrow> string" where
  "hex_byte b = [hex_digit (unat b div 16), hex_digit (unat b mod 16)]"

definition hexdigest :: "byte list \<Rightarrow> string" where
  "hexdigest bs = concat (map hex_byte bs)"

section \<open>The line transformer\<close>

definition md5_hash :: "string \<Rightarrow> string" where
  \<comment> \<open>\<^verbatim>\<open>def md5_hash(content)\<close>, lines 24-26\<close>
  "md5_hash content = hexdigest (md5_digest (encode content))"

definition remove_c :: "string \<Rightarrow> string" where
  \<comment> \<open>\<^verbatim>\<open>def remove_c(content)\<close>, lines 29-31: \<^verbatim>\<open>re.sub(r'[cC]', '', content)\<close>\<close>
  "remove_c content = filter (\<lambda>ch. ch \<noteq> CHR ''c'' \<and> ch \<noteq> CHR ''C'') content"

datatype exn = KeyError nat

definition heading_levels :: "nat \<Rightarrow> string option" where
  \<comment> \<open>the dictionary of lines 55-62\<close>
  "heading_levels = map_of
     [(1, ''<h1>{}</h1>''), (2, ''<h2>{}</h2>''), (3, ''<h3>{}</h3>''),
      (4, ''<h4>{}</h4>''), (5, ''<h5>{}</h5>''), (6, ''<h6>{}</h6>'')]"

definition inline_substitutions :: "string \<Rightarrow> string" where
  \<comment> \<open>lines 64-74: the four \<^verbatim>\<open>re.sub\<close> calls, each on the result of the one before\<close>
  "inline_substitutions line0 =
     (let line1 = re_sub CHR ''*'' CHR ''*'' (\<lambda>g. ''<b>'' @ g @ ''</b>'') line0;
          line2 = re_sub CHR ''_'' CHR ''_'' (\<lambda>g. ''<em>'' @ g @ ''</em>'') line1;
          line3 = re_sub CHR ''['' CHR '']'' md5_hash line2;
          line4 = re_sub CHR ''('' CHR '')'' remove_c line3
      in line4)"

type_synonym result = "string \<times> bool \<times> bool \<times> bool"

fun heading_loop :: "nat list \<Rightarrow> string \<Rightarrow> (exn + result) option" where
  \<comment> \<open>lines 77-79: the loop over \<^verbatim>\<open>range(6, 0, -1)\<close>; \<open>Some\<close> is the loop's return,
      \<open>None\<close> its end without one. A key missing in the dictionary raises.\<close>
  "heading_loop [] line = None"
| "heading_loop (level # levels) line =
     (if startswith line (replicate level CHR ''#'' @ '' '') then
        (case heading_levels level of
           None \<Rightarrow> Some (Inl (KeyError level))
         | Some template \<Rightarrow>
             Some (Inr (format_str template (strip (drop (level + 1) line)),
                        False, False, False)))
      else heading_loop levels line)"

definition markdown_to_html_line ::
    "string \<Rightarrow> bool \<Rightarrow> bool \<Rightarrow> bool \<Rightarrow> exn + result" where
  \<comment> \<open>\<^verbatim>\<open>def markdown_to_html_line(line, in_unordered_list, in_ordered_list, in_paragraph)\<close>,
      lines 34-111\<close>
  "markdown_to_html_line line0 in_unordered_list in_ordered_list in_paragraph =
     (let line = inline_substitutions line0 in
      case heading_loop [6, 5, 4, 3, 2, 1] line of
        Some r \<Rightarrow> r
      | None \<Rightarrow>
          if startswith line ''- '' then
            (let list_item = ''<li>'' @ strip (drop 2 line) @ ''</li>'' in
             if \<not> in_unordered_list
             then Inr (''<ul>'' @ [newline] @ list_item, True, False, False)
             else Inr (list_item, True, False, False))
          else if startswith line ''* '' then
            (let list_item = ''<li>'' @ strip (drop 2 line) @ ''</li>'' in
             if \<not> in_ordered_list
             then Inr (''<ol>'' @ [newline] @ list_item, False, True, False)
             else Inr (list_item, False, True, False))
          else if line = [] then
            (if in_unordered_list then Inr (''</ul>'', False, False, False)
             else if in_ordered_list then Inr (''</ol>'', False, False, False)
             else if in_paragraph then Inr (''</p>'', False, False, False)
             else Inr ([], False, False, False))
          else if \<not> in_paragraph
          then Inr (''<p>'' @ [newline] @ ''    '' @ line, False, False, True)
          else Inr (''    <br />'' @ [newline] @ ''    '' @ line, False, False, True))"

section \<open>The driver\<close>

fun scan_loop ::
    "string list \<Rightarrow> string list \<times> bool \<times> bool \<times> bool
       \<Rightarrow> exn + string list \<times> bool \<times> bool \<times> bool" where
  \<comment> \<open>lines 139-143: the loop over the lines read, with \<^verbatim>\<open>html_content\<close> and the three
      flags as its state\<close>
  "scan_loop [] st = Inr st"
| "scan_loop (line # lines) (html_content, in_unordered_list, in_ordered_list, in_paragraph) =
     (case markdown_to_html_line (strip line) in_unordered_list in_ordered_list in_paragraph of
        Inl e \<Rightarrow> Inl e
      | Inr (html_line, in_unordered_list', in_ordered_list', in_paragraph') \<Rightarrow>
          scan_loop lines
            (if html_line \<noteq> [] then html_content @ [html_line] else html_content,
             in_unordered_list', in_ordered_list', in_paragraph'))"

definition close_open_blocks :: "string list \<times> bool \<times> bool \<times> bool \<Rightarrow> string list" where
  \<comment> \<open>lines 146-151: three independent \<^verbatim>\<open>if\<close> statements\<close>
  "close_open_blocks st = (case st of
     (html_content, in_unordered_list, in_ordered_list, in_paragraph) \<Rightarrow>
       (let html_content1 =
              (if in_unordered_list then html_content @ [''</ul>''] else html_content);
            html_content2 =
              (if in_ordered_list then html_content1 @ [''</ol>''] else html_content1);
            html_content3 =
              (if in_paragraph then html_content2 @ [''</p>''] else html_content2)
        in html_content3))"

definition convert :: "string list \<Rightarrow> exn + string list" where
  \<comment> \<open>lines 134-151: from the lines read to the final \<^verbatim>\<open>html_content\<close>\<close>
  "convert lines =
     (case scan_loop lines ([], False, False, False) of
        Inl e \<Rightarrow> Inl e
      | Inr st \<Rightarrow> Inr (close_open_blocks st))"

section \<open>The program\<close>

text \<open>
  The operating system is a parameter of the program: whether a path is a regular
  file, what reading the lines of a file returns, and whether writing a file succeeds.
  A call that raises returns the text of the exception (\<^verbatim>\<open>str(e)\<close>). What the program
  does to the file system is the list of the files it opened, in order.
\<close>

record os =
  isfile :: "string \<Rightarrow> bool"
  readlines :: "string \<Rightarrow> string + string list"
  write_file :: "string \<Rightarrow> string \<Rightarrow> string option"

datatype io_event = Read_file string | Write_file string string

record outcome =
  stderr :: string
  exit_status :: nat
  io :: "io_event list"

fun str_nat :: "nat \<Rightarrow> string" where
  \<comment> \<open>\<^verbatim>\<open>str(n)\<close> of a natural number: its decimal digits\<close>
  "str_nat n =
     (if n < 10 then [char_of (48 + n)] else str_nat (n div 10) @ [char_of (48 + n mod 10)])"

definition str_exn :: "exn \<Rightarrow> string" where
  \<comment> \<open>\<^verbatim>\<open>str(e)\<close>: a \<^verbatim>\<open>KeyError\<close> prints its key\<close>
  "str_exn e = (case e of KeyError k \<Rightarrow> str_nat k)"

definition main :: "os \<Rightarrow> string list \<Rightarrow> outcome" where
  \<comment> \<open>lines 114-161; \<open>argv\<close> is \<^verbatim>\<open>sys.argv\<close>\<close>
  "main sys argv =
     (if length argv < 3 then
        \<lparr>stderr = ''Usage: ./markdown2html.py README.md README.html'' @ [newline],
         exit_status = 1, io = []\<rparr>
      else
        let markdown_file = argv ! 1; html_file = argv ! 2 in
        if \<not> isfile sys markdown_file then
          \<lparr>stderr = ''Missing '' @ markdown_file @ [newline], exit_status = 1, io = []\<rparr>
        else
          (case readlines sys markdown_file of
             Inl msg \<Rightarrow>
               \<lparr>stderr = msg @ [newline], exit_status = 1, io = [Read_file markdown_file]\<rparr>
           | Inr lines \<Rightarrow>
               (case convert lines of
                  Inl e \<Rightarrow>
                    \<lparr>stderr = str_exn e @ [newline], exit_status = 1,
                     io = [Read_file markdown_file]\<rparr>
                | Inr html_content \<Rightarrow>
                    (case write_file sys html_file (join [newline] html_content) of
                       Some msg \<Rightarrow>
                         \<lparr>stderr = msg @ [newline], exit_status = 1,
                          io = [Read_file markdown_file,
                                Write_file html_file (join [newline] html_content)]\<rparr>
                     | None \<Rightarrow>
                         \<lparr>stderr = [], exit_status = 0,
                          io = [Read_file markdown_file,
                                Write_file html_file (join [newline] html_content)]\<rparr>))))"

section \<open>Notions of the specification\<close>

text \<open>
  The invariant of the scan state: at most one of the three flags is set.
\<close>

definition at_most_one :: "bool \<Rightarrow> bool \<Rightarrow> bool \<Rightarrow> bool" where
  "at_most_one u v p = (\<not> (u \<and> v) \<and> \<not> (u \<and> p) \<and> \<not> (v \<and> p))"

text \<open>
  A heading line starts with one to six \<^verbatim>\<open>#\<close> and a space; its fragment is the text
  between the tags of its level.
\<close>

definition is_heading :: "string \<Rightarrow> bool" where
  "is_heading s = list_ex (\<lambda>level. startswith s (replicate level CHR ''#'' @ '' '')) [1..<7]"

definition heading_tag :: "nat \<Rightarrow> string \<Rightarrow> string" where
  "heading_tag level text =
     ''<h'' @ [char_of (48 + level)] @ ''>'' @ text @ ''</h'' @ [char_of (48 + level)] @ ''>''"

text \<open>
  \<open>has_pair a s\<close>: the delimiter \<^verbatim>\<open>AA\<close> occurs in \<open>s\<close>. \<open>no_markers t\<close>: the text
  \<open>t\<close> holds none of the characters of the inline delimiters and no line feed.
\<close>

fun has_pair :: "char \<Rightarrow> string \<Rightarrow> bool" where
  "has_pair a (x # y # rest) = ((x = a \<and> y = a) \<or> has_pair a (y # rest))"
| "has_pair a [x] = False"
| "has_pair a [] = False"

definition no_markers :: "string \<Rightarrow> bool" where
  "no_markers t = list_all (\<lambda>c. c \<notin> set ''*_[]()'' \<and> c \<noteq> newline) t"

text \<open>
  A plain line holds none of the characters that start a heading, a list item or an
  inline span. The paragraphs of a document are the maximal runs of lines that are
  not empty once stripped; the block of a run opens with its first line, holds a
  line break before each further line, and ends with the closing tag.
\<close>

definition markdown_special :: string where
  "markdown_special = ''#-*_[(''"

definition plain_line :: "string \<Rightarrow> bool" where
  "plain_line l = list_all (\<lambda>c. c \<notin> set markdown_special) l"

fun para_block :: "string list \<Rightarrow> string list" where
  "para_block [] = []"
| "para_block (l # ls) =
     (''<p>'' @ [newline] @ ''    '' @ l) #
     map (\<lambda>x. ''    <br />'' @ [newline] @ ''    '' @ x) ls @ [''</p>'']"

function runs :: "string list \<Rightarrow> string list list" where
  "runs [] = []"
| "runs (l # ls) =
     (if l = [] then runs ls
      else (l # takeWhile (\<lambda>x. x \<noteq> []) ls) # runs (dropWhile (\<lambda>x. x \<noteq> []) ls))"
  by pat_completeness auto
termination
  by (relation "measure length") (auto simp: less_Suc_eq_le length_dropWhile_le)

section \<open>Properties\<close>

subsection \<open>Evaluation of the tables\<close>

lemma replicate_small:
  "replicate (Suc 0) c = [c]"
  "replicate 2 c = [c, c]"
  "replicate 3 c = [c, c, c]"
  "replicate 4 c = [c, c, c, c]"
  "replicate 5 c = [c, c, c, c, c]"
  "replicate 6 c = [c, c, c, c, c, c]"
  "replicate 7 c = [c, c, c, c, c, c, c]"
  by (simp_all add: eval_nat_numeral)

lemma heading_levels_simps:
  "heading_levels (Suc 0) = Some ''<h1>{}</h1>''"
  "heading_levels 2 = Some ''<h2>{}</h2>''"
  "heading_levels 3 = Some ''<h3>{}</h3>''"
  "heading_levels 4 = Some ''<h4>{}</h4>''"
  "heading_levels 5 = Some ''<h5>{}</h5>''"
  "heading_levels 6 = Some ''<h6>{}</h6>''"
  by (simp_all add: heading_levels_def)

lemma heading_loop_Some:
  "heading_loop [6, 5, 4, 3, 2, 1] s = Some r \<Longrightarrow> \<exists>h. r = Inr (h, False, False, False)"
  by (auto simp: heading_levels_simps split: if_splits)

lemma heading_loop_None:
  "heading_loop [6, 5, 4, 3, 2, 1] s = None \<longleftrightarrow> \<not> is_heading s"
  by (auto simp: is_heading_def heading_levels_simps upt_rec replicate_small)

lemma transformer_flags:
  "\<exists>h u' v' p'. markdown_to_html_line line u v p = Inr (h, u', v', p') \<and> at_most_one u' v' p'"
proof (cases "heading_loop [6, 5, 4, 3, 2, 1] (inline_substitutions line)")
  case None
  then show ?thesis
    by (auto simp: markdown_to_html_line_def at_most_one_def Let_def simp del: heading_loop.simps)
next
  case (Some r)
  then show ?thesis
    using heading_loop_Some [OF Some]
    by (auto simp: markdown_to_html_line_def at_most_one_def simp del: heading_loop.simps)
qed

lemma scan_loop_flags:
  "at_most_one u v p \<Longrightarrow>
   \<exists>content u' v' p'. scan_loop lines (acc, u, v, p) = Inr (content, u', v', p') \<and>
      at_most_one u' v' p'"
proof (induction lines arbitrary: acc u v p)
  case Nil
  then show ?case by simp
next
  case (Cons l lines)
  obtain h u1 v1 p1 where
    step: "markdown_to_html_line (strip l) u v p = Inr (h, u1, v1, p1)" and
    inv: "at_most_one u1 v1 p1"
    using transformer_flags by blast
  show ?case
    using Cons.IH [OF inv] by (simp add: step)
qed

lemma heading_tag_simps:
  "heading_tag (Suc 0) t = ''<h1>'' @ t @ ''</h1>''"
  "heading_tag 2 t = ''<h2>'' @ t @ ''</h2>''"
  "heading_tag 3 t = ''<h3>'' @ t @ ''</h3>''"
  "heading_tag 4 t = ''<h4>'' @ t @ ''</h4>''"
  "heading_tag 5 t = ''<h5>'' @ t @ ''</h5>''"
  "heading_tag 6 t = ''<h6>'' @ t @ ''</h6>''"
  by (simp_all add: heading_tag_def) code_simp+

lemma heading_case:
  assumes "1 \<le> L" "L \<le> 6"
    and "inline_substitutions line = replicate L CHR ''#'' @ CHR '' '' # rest"
  shows "markdown_to_html_line line u v p = Inr (heading_tag L (strip rest), False, False, False)"
proof -
  from assms(1,2) consider "L = 1" | "L = 2" | "L = 3" | "L = 4" | "L = 5" | "L = 6"
    by linarith
  then show ?thesis
    by cases
      (simp_all add: markdown_to_html_line_def assms(3) startswith_def heading_levels_simps
        heading_tag_simps replicate_small)
qed

lemma blank_case:
  "markdown_to_html_line [] u v p =
     Inr (if u then ''</ul>'' else if v then ''</ol>'' else if p then ''</p>'' else [],
          False, False, False)"
  by (simp add: markdown_to_html_line_def inline_substitutions_def startswith_def)


lemma md5_hash_abc: "md5_hash ''abc'' = ''900150983cd24fb0d6963f7d28e17f72''"
  by code_simp

subsection \<open>The state invariant\<close>

text \<open>
  C1: every return of the line transformer sets at most one of the three flags,
  whatever the line and the flags it was given; so the scan of any sequence of lines
  from the all-false state never raises and ends, after each line, in a state with at
  most one flag set.
\<close>

theorem flags_at_most_one:
  "(\<exists>h u' v' p'. markdown_to_html_line line u v p = Inr (h, u', v', p') \<and>
      at_most_one u' v' p') \<and>
   (\<exists>content u' v' p'.
      scan_loop lines ([], False, False, False) = Inr (content, u', v', p') \<and>
      at_most_one u' v' p')"
proof
  show "\<exists>h u' v' p'. markdown_to_html_line line u v p = Inr (h, u', v', p') \<and>
      at_most_one u' v' p'"
    by (rule transformer_flags)
  have "at_most_one False False False"
    by (simp add: at_most_one_def)
  then show "\<exists>content u' v' p'.
      scan_loop lines ([], False, False, False) = Inr (content, u', v', p') \<and>
      at_most_one u' v' p'"
    by (rule scan_loop_flags)
qed

subsection \<open>Blank lines\<close>

lemma strip_blank: "list_all isspace raw \<Longrightarrow> strip raw = []"
proof -
  assume "list_all isspace raw"
  then have empty: "dropWhile isspace raw = []"
    by (simp add: list_all_iff)
  show ?thesis
    by (simp add: strip_def lstrip_def rstrip_def empty)
qed

text \<open>
  C4: on the empty line the transformer returns the closing tag of the open block,
  the unordered list first, then the ordered list, then the paragraph, and the empty
  fragment when no block is open; all three flags are cleared. A line of whitespace
  only is the empty line once the driver has stripped it.
\<close>

theorem blank_line_closes_open_block:
  "markdown_to_html_line [] u v p =
     Inr (if u then ''</ul>'' else if v then ''</ol>'' else if p then ''</p>'' else [],
          False, False, False) \<and>
   (list_all isspace raw \<longrightarrow>
    markdown_to_html_line (strip raw) u v p =
      Inr (if u then ''</ul>'' else if v then ''</ol>'' else if p then ''</p>'' else [],
           False, False, False))"
  by (simp add: blank_case strip_blank)

theorem blank_line_closes_open_block_witness:
  "list_all isspace [CHR '' '', CHR 0x09, newline] \<and>
   markdown_to_html_line (strip [CHR '' '', CHR 0x09, newline]) False True False =
     Inr (''</ol>'', False, False, False)"
proof -
  have blank: "list_all isspace [CHR '' '', CHR 0x09, newline]"
    by (simp add: isspace_def newline_def)
  from blank_line_closes_open_block [of False True False "[CHR '' '', CHR 0x09, newline]"] blank
  show ?thesis by simp
qed

lemma hashes_not_heading:
  assumes "7 \<le> n"
  shows "\<not> is_heading (replicate n CHR ''#'' @ CHR '' '' # rest)"
proof -
  obtain m where n: "n = 7 + m"
    using assms by (metis le_Suc_ex)
  show ?thesis
    by (simp add: n replicate_add is_heading_def startswith_def upt_rec replicate_small)
qed

lemma paragraph_case:
  assumes "s = inline_substitutions line" "\<not> is_heading s"
    "\<not> startswith s ''- ''" "\<not> startswith s ''* ''" "s \<noteq> []"
  shows "markdown_to_html_line line u v p =
     Inr ((if p then ''    <br />'' else ''<p>'') @ [newline] @ ''    '' @ s, False, False, True)"
  using assms heading_loop_None [of s]
  by (simp add: markdown_to_html_line_def del: heading_loop.simps)

lemma list_item_not_heading:
  "c \<noteq> CHR ''#'' \<Longrightarrow> \<not> is_heading (c # rest)"
  by (simp add: is_heading_def startswith_def upt_rec replicate_small)

lemma list_item_case:
  assumes "inline_substitutions line = c # CHR '' '' # rest" "c = CHR ''-'' \<or> c = CHR ''*''"
  shows "markdown_to_html_line line u v p =
     (if c = CHR ''-''
      then Inr ((if u then [] else ''<ul>'' @ [newline]) @ ''<li>'' @ strip rest @ ''</li>'',
                True, False, False)
      else Inr ((if v then [] else ''<ol>'' @ [newline]) @ ''<li>'' @ strip rest @ ''</li>'',
                False, True, False))"
proof -
  have "\<not> is_heading (c # CHR '' '' # rest)"
    using assms(2) by (intro list_item_not_heading) auto
  then have "heading_loop [6, 5, 4, 3, 2, 1] (c # CHR '' '' # rest) = None"
    by (rule heading_loop_None [THEN iffD2])
  then show ?thesis
    using assms(2)
    by (auto simp: markdown_to_html_line_def assms(1) startswith_def simp del: heading_loop.simps)
qed

subsection \<open>Headings\<close>

text \<open>
  C3: when the line, after the inline substitutions, starts with \<open>L\<close> characters
  \<^verbatim>\<open>#\<close> and a space, for \<open>L\<close> from 1 to 6, the transformer returns the fragment
  \<^verbatim>\<open><hL>text</hL>\<close>, where the text is the rest of the line after the marker, stripped
  at both ends, and clears the three flags. With seven or more \<^verbatim>\<open>#\<close> before the
  space the line is no heading: it is no list item and not empty either, so it is
  paragraph text.
\<close>

theorem heading_levels_one_to_six:
  "(1 \<le> L \<and> L \<le> 6 \<and>
      inline_substitutions line = replicate L CHR ''#'' @ CHR '' '' # rest \<longrightarrow>
    markdown_to_html_line line u v p = Inr (heading_tag L (strip rest), False, False, False)) \<and>
   (7 \<le> n \<and>
      inline_substitutions line = replicate n CHR ''#'' @ CHR '' '' # rest \<longrightarrow>
    \<not> is_heading (inline_substitutions line) \<and>
    markdown_to_html_line line u v p =
      Inr ((if p then ''    <br />'' else ''<p>'') @ [newline] @ ''    '' @
             inline_substitutions line, False, False, True))"
proof (intro conjI impI)
  assume "1 \<le> L \<and> L \<le> 6 \<and>
      inline_substitutions line = replicate L CHR ''#'' @ CHR '' '' # rest"
  then show "markdown_to_html_line line u v p =
      Inr (heading_tag L (strip rest), False, False, False)"
    by (simp add: heading_case)
next
  assume h: "7 \<le> n \<and>
      inline_substitutions line = replicate n CHR ''#'' @ CHR '' '' # rest"
  then show nh: "\<not> is_heading (inline_substitutions line)"
    by (simp add: hashes_not_heading)
  have "n = Suc (n - 1)"
    using h by simp
  then obtain t where s: "inline_substitutions line = CHR ''#'' # t"
    using h by (metis append_Cons replicate_Suc)
  show "markdown_to_html_line line u v p =
      Inr ((if p then ''    <br />'' else ''<p>'') @ [newline] @ ''    '' @
             inline_substitutions line, False, False, True)"
    by (rule paragraph_case [OF refl nh]) (simp_all add: s startswith_def)
qed

theorem heading_levels_one_to_six_witness:
  "markdown_to_html_line ''# Title'' False False False =
     Inr (''<h1>Title</h1>'', False, False, False) \<and>
   markdown_to_html_line ''###### Deep'' False False True =
     Inr (''<h6>Deep</h6>'', False, False, False) \<and>
   markdown_to_html_line ''####### Seven'' False False False =
     Inr (''<p>'' @ [newline] @ ''    ####### Seven'', False, False, True)"
proof -
  have s1: "inline_substitutions ''# Title'' = replicate 1 CHR ''#'' @ CHR '' '' # ''Title''"
    by code_simp
  have s6: "inline_substitutions ''###### Deep'' = replicate 6 CHR ''#'' @ CHR '' '' # ''Deep''"
    by code_simp
  have s7: "inline_substitutions ''####### Seven'' =
      replicate 7 CHR ''#'' @ CHR '' '' # ''Seven''"
    by code_simp
  have t1: "heading_tag 1 (strip ''Title'') = ''<h1>Title</h1>''"
    by code_simp
  have t6: "heading_tag 6 (strip ''Deep'') = ''<h6>Deep</h6>''"
    by code_simp
  have r7: "replicate 7 CHR ''#'' @ CHR '' '' # ''Seven'' = ''####### Seven''"
    by code_simp
  from heading_levels_one_to_six [of 1 "''# Title''" "''Title''" False False False 7] s1 t1
  have "markdown_to_html_line ''# Title'' False False False =
     Inr (''<h1>Title</h1>'', False, False, False)"
    by simp
  moreover
  from heading_levels_one_to_six [of 6 "''###### Deep''" "''Deep''" False False True 7] s6 t6
  have "markdown_to_html_line ''###### Deep'' False False True =
     Inr (''<h6>Deep</h6>'', False, False, False)"
    by simp
  moreover
  from heading_levels_one_to_six [of 1 "''####### Seven''" "''Seven''" False False False 7] s7 r7
  have "markdown_to_html_line ''####### Seven'' False False False =
     Inr (''<p>'' @ [newline] @ ''    ####### Seven'', False, False, True)"
    by simp
  ultimately show ?thesis
    by blast
qed

subsection \<open>List items\<close>

text \<open>
  C10: in a state of the scan (at most one flag set) with the unordered list open, a
  line starting with \<^verbatim>\<open>* \<close> returns the opening tag of the ordered list, a line feed
  and the item, with no closing tag of the unordered list before it, and the state
  becomes ordered list only; the same holds with the two kinds of list exchanged.
\<close>

theorem switching_list_kinds:
  "(u \<and> at_most_one u v p \<and> inline_substitutions line = ''* '' @ rest \<longrightarrow>
    markdown_to_html_line line u v p =
      Inr (''<ol>'' @ [newline] @ ''<li>'' @ strip rest @ ''</li>'', False, True, False)) \<and>
   (v \<and> at_most_one u v p \<and> inline_substitutions line = ''- '' @ rest \<longrightarrow>
    markdown_to_html_line line u v p =
      Inr (''<ul>'' @ [newline] @ ''<li>'' @ strip rest @ ''</li>'', True, False, False))"
  by (auto simp: at_most_one_def list_item_case)

theorem switching_list_kinds_witness:
  "markdown_to_html_line ''* two'' True False False =
     Inr (''<ol>'' @ [newline] @ ''<li>two</li>'', False, True, False) \<and>
   markdown_to_html_line ''- one'' False True False =
     Inr (''<ul>'' @ [newline] @ ''<li>one</li>'', True, False, False)"
proof -
  have s1: "inline_substitutions ''* two'' = ''* '' @ ''two''"
    by code_simp
  have s2: "inline_substitutions ''- one'' = ''- '' @ ''one''"
    by code_simp
  have t: "strip ''two'' = ''two''" "strip ''one'' = ''one''"
    by code_simp+
  from switching_list_kinds [of True False False "''* two''" "''two''"] s1 t
  have "markdown_to_html_line ''* two'' True False False =
     Inr (''<ol>'' @ [newline] @ ''<li>two</li>'', False, True, False)"
    by (simp add: at_most_one_def)
  moreover
  from switching_list_kinds [of False True False "''- one''" "''one''"] s2 t
  have "markdown_to_html_line ''- one'' False True False =
     Inr (''<ul>'' @ [newline] @ ''<li>one</li>'', True, False, False)"
    by (simp add: at_most_one_def)
  ultimately show ?thesis
    by blast
qed

subsection \<open>The end of the document\<close>

text \<open>
  C5: the scan of any document from the all-false state ends in a state, and the
  driver appends to the fragments collected exactly the closing tag of the block that
  is still open in that state (the unordered list, else the ordered list, else the
  paragraph), and nothing when no block is open.
\<close>

theorem end_of_document_closure:
  "\<exists>html_content u v p.
     scan_loop lines ([], False, False, False) = Inr (html_content, u, v, p) \<and>
     convert lines =
       Inr (html_content @
            (if u then [''</ul>''] else if v then [''</ol>''] else if p then [''</p>'']
             else []))"
proof -
  have "at_most_one False False False"
    by (simp add: at_most_one_def)
  then obtain html_content u v p where
    scan: "scan_loop lines ([], False, False, False) = Inr (html_content, u, v, p)" and
    inv: "at_most_one u v p"
    using scan_loop_flags by blast
  have "convert lines =
       Inr (html_content @
            (if u then [''</ul>''] else if v then [''</ol>''] else if p then [''</p>'']
             else []))"
    using inv by (auto simp: convert_def scan close_open_blocks_def at_most_one_def)
  with scan show ?thesis
    by blast
qed

subsection \<open>Transitions without a closing tag\<close>

text \<open>
  C8: in a state with a block open, a heading line returns the heading fragment
  alone, with no closing tag of the open block before it, and clears the flags; in a
  state of the scan with a list open, a line of paragraph text (no heading, no list
  item, not empty) returns the opening fragment of the paragraph alone, with no
  closing tag of the list, and sets the paragraph flag only.
\<close>

theorem no_closing_tag_on_transition:
  "((u \<or> v \<or> p) \<and> 1 \<le> L \<and> L \<le> 6 \<and>
      inline_substitutions line = replicate L CHR ''#'' @ CHR '' '' # rest \<longrightarrow>
    markdown_to_html_line line u v p = Inr (heading_tag L (strip rest), False, False, False)) \<and>
   ((u \<or> v) \<and> at_most_one u v p \<and> s = inline_substitutions line \<and> \<not> is_heading s \<and>
      \<not> startswith s ''- '' \<and> \<not> startswith s ''* '' \<and> s \<noteq> [] \<longrightarrow>
    markdown_to_html_line line u v p =
      Inr (''<p>'' @ [newline] @ ''    '' @ s, False, False, True))"
proof (intro conjI impI)
  assume "(u \<or> v \<or> p) \<and> 1 \<le> L \<and> L \<le> 6 \<and>
      inline_substitutions line = replicate L CHR ''#'' @ CHR '' '' # rest"
  then show "markdown_to_html_line line u v p =
      Inr (heading_tag L (strip rest), False, False, False)"
    by (simp add: heading_case)
next
  assume h: "(u \<or> v) \<and> at_most_one u v p \<and> s = inline_substitutions line \<and>
      \<not> is_heading s \<and> \<not> startswith s ''- '' \<and> \<not> startswith s ''* '' \<and> s \<noteq> []"
  then have "\<not> p"
    by (auto simp: at_most_one_def)
  moreover from h have plain: "s = inline_substitutions line" "\<not> is_heading s"
    "\<not> startswith s ''- ''" "\<not> startswith s ''* ''" "s \<noteq> []"
    by blast+
  ultimately show "markdown_to_html_line line u v p =
      Inr (''<p>'' @ [newline] @ ''    '' @ s, False, False, True)"
    using paragraph_case [OF plain, of u v p] by simp
qed

theorem no_closing_tag_on_transition_witness:
  "markdown_to_html_line ''## Next'' True False False =
     Inr (''<h2>Next</h2>'', False, False, False) \<and>
   markdown_to_html_line ''## Next'' False False True =
     Inr (''<h2>Next</h2>'', False, False, False) \<and>
   markdown_to_html_line ''plain text'' False True False =
     Inr (''<p>'' @ [newline] @ ''    plain text'', False, False, True)"
proof -
  have s2: "inline_substitutions ''## Next'' = replicate 2 CHR ''#'' @ CHR '' '' # ''Next''"
    by code_simp
  have t2: "heading_tag 2 (strip ''Next'') = ''<h2>Next</h2>''"
    by code_simp
  have sp: "inline_substitutions ''plain text'' = ''plain text''"
    by code_simp
  have np: "\<not> is_heading ''plain text''" "\<not> startswith ''plain text'' ''- ''"
    "\<not> startswith ''plain text'' ''* ''"
    by code_simp+
  from no_closing_tag_on_transition [of True False False 2 "''## Next''" "''Next''"] s2 t2
  have "markdown_to_html_line ''## Next'' True False False =
     Inr (''<h2>Next</h2>'', False, False, False)"
    by simp
  moreover
  from no_closing_tag_on_transition [of False False True 2 "''## Next''" "''Next''"] s2 t2
  have "markdown_to_html_line ''## Next'' False False True =
     Inr (''<h2>Next</h2>'', False, False, False)"
    by simp
  moreover
  from no_closing_tag_on_transition
    [of False True False 1 "''plain text''" "''x''" "''plain text''"] sp np
  have "markdown_to_html_line ''plain text'' False True False =
     Inr (''<p>'' @ [newline] @ ''    plain text'', False, False, True)"
    by (simp add: at_most_one_def)
  ultimately show ?thesis
    by blast
qed

subsection \<open>The missing input file\<close>

text \<open>
  C9: when the program is given its two paths and the input path is no regular file,
  it writes \<^verbatim>\<open>Missing\<close>, the path and a line feed to the error stream and exits with
  status 1, having opened no file.
\<close>

theorem missing_input_file:
  "3 \<le> length argv \<and> \<not> isfile sys (argv ! 1) \<longrightarrow>
   main sys argv =
     \<lparr>stderr = ''Missing '' @ argv ! 1 @ [newline], exit_status = 1, io = []\<rparr>"
  by (simp add: main_def)

theorem missing_input_file_witness:
  "main \<lparr>isfile = (\<lambda>path. False), readlines = (\<lambda>path. Inr []),
         write_file = (\<lambda>path text. None)\<rparr>
     [''./markdown2html.py'', ''absent.md'', ''out.html''] =
     \<lparr>stderr = ''Missing absent.md'' @ [newline], exit_status = 1, io = []\<rparr>"
  using missing_input_file
    [of "[''./markdown2html.py'', ''absent.md'', ''out.html'']"
        "\<lparr>isfile = (\<lambda>path. False), readlines = (\<lambda>path. Inr []),
          write_file = (\<lambda>path text. None)\<rparr>"]
  by simp

subsection \<open>The inline substitutions\<close>

lemma absent_no_pair: "a \<notin> set s \<Longrightarrow> \<not> has_pair a s"
  by (induction a s rule: has_pair.induct) auto

lemma re_sub_no_pair: "\<not> has_pair a s \<Longrightarrow> re_sub a b repl s = s"
  by (induction a b repl s rule: re_sub.induct) auto

lemma re_sub_absent: "a \<notin> set s \<Longrightarrow> re_sub a b repl s = s"
  by (simp add: absent_no_pair re_sub_no_pair)

lemma find_close_found:
  "\<not> has_pair b (g @ [b]) \<Longrightarrow> newline \<notin> set g \<Longrightarrow>
   find_close b (g @ b # b # r) = Some (g, r)"
proof (induction g)
  case Nil
  then show ?case by simp
next
  case (Cons x g)
  then show ?case
    by (cases g) auto
qed

lemma re_sub_prefix:
  "\<not> has_pair a (pre @ [a]) \<Longrightarrow>
   re_sub a b repl (pre @ a # a # s) = pre @ re_sub a b repl (a # a # s)"
proof (induction pre)
  case Nil
  then show ?case by simp
next
  case (Cons x pre)
  then show ?case
    by (cases pre) auto
qed

lemma re_sub_span:
  assumes "\<not> has_pair a (pre @ [a])" "\<not> has_pair b (g @ [b])" "newline \<notin> set g"
  shows "re_sub a b repl (pre @ a # a # g @ b # b # post) = pre @ repl g @ re_sub a b repl post"
  using assms by (simp add: re_sub_prefix find_close_found)


lemma absent_no_pair_snoc: "a \<notin> set g \<Longrightarrow> \<not> has_pair a (g @ [a])"
proof (induction g)
  case Nil
  then show ?case by simp
next
  case (Cons x g)
  then show ?case by (cases g) auto
qed

lemma re_sub_span_absent:
  assumes "a \<notin> set pre" "b \<notin> set g" "newline \<notin> set g"
  shows "re_sub a b repl (pre @ a # a # g @ b # b # post) = pre @ repl g @ re_sub a b repl post"
  using assms by (simp add: re_sub_span absent_no_pair_snoc)

lemma hex_digit_ge: "n < 16 \<Longrightarrow> 48 \<le> (of_char (hex_digit n) :: nat)"
  by (simp add: hex_digit_def)

lemma md5_hash_chars:
  assumes "c \<in> set (md5_hash x)"
  shows "48 \<le> (of_char c :: nat)"
proof -
  from assms obtain b :: byte where
    "c = hex_digit (unat b div 16) \<or> c = hex_digit (unat b mod 16)"
    by (auto simp: md5_hash_def hexdigest_def hex_byte_def)
  moreover have "unat b < 256"
    using unsigned_less [of b] by simp
  then have "unat b div 16 < 16" "unat b mod 16 < 16"
    by simp_all
  ultimately show ?thesis
    using hex_digit_ge by blast
qed

lemma md5_hash_no_paren: "CHR ''('' \<notin> set (md5_hash x)"
  using md5_hash_chars [of "CHR ''(''" x] by auto

lemma inline_substitutions_eq:
  "inline_substitutions line =
     re_sub CHR ''('' CHR '')'' remove_c
       (re_sub CHR ''['' CHR '']'' md5_hash
          (re_sub CHR ''_'' CHR ''_'' (\<lambda>g. ''<em>'' @ g @ ''</em>'')
             (re_sub CHR ''*'' CHR ''*'' (\<lambda>g. ''<b>'' @ g @ ''</b>'') line)))"
  by (simp add: inline_substitutions_def)

lemma no_markers_absent:
  assumes "no_markers t"
  shows "CHR ''*'' \<notin> set t" "CHR ''_'' \<notin> set t" "CHR ''['' \<notin> set t" "CHR '']'' \<notin> set t"
    "CHR ''('' \<notin> set t" "CHR '')'' \<notin> set t" "newline \<notin> set t"
  using assms by (auto simp: no_markers_def list_all_iff)

lemma bold_in_hash:
  assumes "no_markers t"
  shows "inline_substitutions (''[[**'' @ t @ ''**]]'') = md5_hash (''<b>'' @ t @ ''</b>'')"
proof -
  note t = no_markers_absent [OF assms]
  let ?bold = "\<lambda>g. ''<b>'' @ g @ ''</b>''"
  let ?em = "\<lambda>g. ''<em>'' @ g @ ''</em>''"
  have 1: "re_sub CHR ''*'' CHR ''*'' ?bold (''[[**'' @ t @ ''**]]'') = ''[[<b>'' @ t @ ''</b>]]''"
    using re_sub_span_absent [of "CHR ''*''" "''[[''" "CHR ''*''" t ?bold "'']]''"] t
    by simp
  have 2: "re_sub CHR ''_'' CHR ''_'' ?em (''[[<b>'' @ t @ ''</b>]]'') = ''[[<b>'' @ t @ ''</b>]]''"
    using t by (intro re_sub_absent) simp
  have 3: "re_sub CHR ''['' CHR '']'' md5_hash (''[[<b>'' @ t @ ''</b>]]'') =
      md5_hash (''<b>'' @ t @ ''</b>'')"
    using re_sub_span_absent [of "CHR ''[''" "[]" "CHR '']''" "''<b>'' @ t @ ''</b>''" md5_hash "[]"] t
    by (simp add: newline_def)
  have 4: "re_sub CHR ''('' CHR '')'' remove_c (md5_hash (''<b>'' @ t @ ''</b>'')) =
      md5_hash (''<b>'' @ t @ ''</b>'')"
    by (intro re_sub_absent md5_hash_no_paren)
  show ?thesis
    by (simp only: inline_substitutions_eq 1 2 3 4)
qed

lemma bold_in_strip:
  assumes "no_markers t"
  shows "inline_substitutions (''((**'' @ t @ ''**))'') = remove_c (''<b>'' @ t @ ''</b>'')"
proof -
  note t = no_markers_absent [OF assms]
  let ?bold = "\<lambda>g. ''<b>'' @ g @ ''</b>''"
  let ?em = "\<lambda>g. ''<em>'' @ g @ ''</em>''"
  have 1: "re_sub CHR ''*'' CHR ''*'' ?bold (''((**'' @ t @ ''**))'') = ''((<b>'' @ t @ ''</b>))''"
    using re_sub_span_absent [of "CHR ''*''" "''((''" "CHR ''*''" t ?bold "''))''"] t
    by simp
  have 2: "re_sub CHR ''_'' CHR ''_'' ?em (''((<b>'' @ t @ ''</b>))'') = ''((<b>'' @ t @ ''</b>))''"
    using t by (intro re_sub_absent) simp
  have 3: "re_sub CHR ''['' CHR '']'' md5_hash (''((<b>'' @ t @ ''</b>))'') =
      ''((<b>'' @ t @ ''</b>))''"
    using t by (intro re_sub_absent) simp
  have 4: "re_sub CHR ''('' CHR '')'' remove_c (''((<b>'' @ t @ ''</b>))'') =
      remove_c (''<b>'' @ t @ ''</b>'')"
    using re_sub_span_absent [of "CHR ''(''" "[]" "CHR '')''" "''<b>'' @ t @ ''</b>''" remove_c "[]"] t
    by (simp add: newline_def)
  show ?thesis
    by (simp only: inline_substitutions_eq 1 2 3 4)
qed

lemma em_in_hash:
  assumes "no_markers t"
  shows "inline_substitutions (''[[__'' @ t @ ''__]]'') = md5_hash (''<em>'' @ t @ ''</em>'')"
proof -
  note t = no_markers_absent [OF assms]
  let ?bold = "\<lambda>g. ''<b>'' @ g @ ''</b>''"
  let ?em = "\<lambda>g. ''<em>'' @ g @ ''</em>''"
  have 1: "re_sub CHR ''*'' CHR ''*'' ?bold (''[[__'' @ t @ ''__]]'') = ''[[__'' @ t @ ''__]]''"
    using t by (intro re_sub_absent) simp
  have 2: "re_sub CHR ''_'' CHR ''_'' ?em (''[[__'' @ t @ ''__]]'') = ''[[<em>'' @ t @ ''</em>]]''"
    using re_sub_span_absent [of "CHR ''_''" "''[[''" "CHR ''_''" t ?em "'']]''"] t
    by simp
  have 3: "re_sub CHR ''['' CHR '']'' md5_hash (''[[<em>'' @ t @ ''</em>]]'') =
      md5_hash (''<em>'' @ t @ ''</em>'')"
    using re_sub_span_absent [of "CHR ''[''" "[]" "CHR '']''" "''<em>'' @ t @ ''</em>''" md5_hash "[]"] t
    by (simp add: newline_def)
  have 4: "re_sub CHR ''('' CHR '')'' remove_c (md5_hash (''<em>'' @ t @ ''</em>'')) =
      md5_hash (''<em>'' @ t @ ''</em>'')"
    by (intro re_sub_absent md5_hash_no_paren)
  show ?thesis
    by (simp only: inline_substitutions_eq 1 2 3 4)
qed

lemma em_in_strip:
  assumes "no_markers t"
  shows "inline_substitutions (''((__'' @ t @ ''__))'') = remove_c (''<em>'' @ t @ ''</em>'')"
proof -
  note t = no_markers_absent [OF assms]
  let ?bold = "\<lambda>g. ''<b>'' @ g @ ''</b>''"
  let ?em = "\<lambda>g. ''<em>'' @ g @ ''</em>''"
  have 1: "re_sub CHR ''*'' CHR ''*'' ?bold (''((__'' @ t @ ''__))'') = ''((__'' @ t @ ''__))''"
    using t by (intro re_sub_absent) simp
  have 2: "re_sub CHR ''_'' CHR ''_'' ?em (''((__'' @ t @ ''__))'') = ''((<em>'' @ t @ ''</em>))''"
    using re_sub_span_absent [of "CHR ''_''" "''((''" "CHR ''_''" t ?em "''))''"] t
    by simp
  have 3: "re_sub CHR ''['' CHR '']'' md5_hash (''((<em>'' @ t @ ''</em>))'') =
      ''((<em>'' @ t @ ''</em>))''"
    using t by (intro re_sub_absent) simp
  have 4: "re_sub CHR ''('' CHR '')'' remove_c (''((<em>'' @ t @ ''</em>))'') =
      remove_c (''<em>'' @ t @ ''</em>'')"
    using re_sub_span_absent [of "CHR ''(''" "[]" "CHR '')''" "''<em>'' @ t @ ''</em>''" remove_c "[]"] t
    by (simp add: newline_def)
  show ?thesis
    by (simp only: inline_substitutions_eq 1 2 3 4)
qed


lemma md5_hash_bold_a: "md5_hash ''<b>a</b>'' = ''d0d0b371e07faa35478d8dde673a8cc5''"
  by code_simp

lemma md5_hash_stars_a: "md5_hash ''**a**'' = ''7344adec856fe1d08240951a9c75f676''"
  by code_simp

text \<open>
  C2, as amended: the four substitutions are applied in the order bold, emphasis,
  hash, strip, each to the result of the one before. Hence bold and emphasis markers
  inside a hash or strip span are expanded first: the hash digests, and the strip
  filters, the enclosed text as the bold and emphasis substitutions have rewritten
  it, with the tags in place of the markers.
\<close>

theorem substitution_order:
  "inline_substitutions line =
     re_sub CHR ''('' CHR '')'' remove_c
       (re_sub CHR ''['' CHR '']'' md5_hash
          (re_sub CHR ''_'' CHR ''_'' (\<lambda>g. ''<em>'' @ g @ ''</em>'')
             (re_sub CHR ''*'' CHR ''*'' (\<lambda>g. ''<b>'' @ g @ ''</b>'') line))) \<and>
   (no_markers t \<longrightarrow>
      inline_substitutions (''[[**'' @ t @ ''**]]'') = md5_hash (''<b>'' @ t @ ''</b>'') \<and>
      inline_substitutions (''((**'' @ t @ ''**))'') = remove_c (''<b>'' @ t @ ''</b>'') \<and>
      inline_substitutions (''[[__'' @ t @ ''__]]'') = md5_hash (''<em>'' @ t @ ''</em>'') \<and>
      inline_substitutions (''((__'' @ t @ ''__))'') = remove_c (''<em>'' @ t @ ''</em>''))"
  using inline_substitutions_eq bold_in_hash bold_in_strip em_in_hash em_in_strip
  by blast

theorem substitution_order_witness:
  "no_markers ''Cocoa'' \<and>
   inline_substitutions ''[[**Cocoa**]]'' = md5_hash ''<b>Cocoa</b>'' \<and>
   inline_substitutions ''((**Cocoa**))'' = ''<b>ooa</b>'' \<and>
   inline_substitutions ''[[__Cocoa__]]'' = md5_hash ''<em>Cocoa</em>'' \<and>
   inline_substitutions ''((__Cocoa__))'' = ''<em>ooa</em>''"
proof -
  have plain: "no_markers ''Cocoa''"
    by (simp add: no_markers_def newline_def)
  have "remove_c ''<b>Cocoa</b>'' = ''<b>ooa</b>''" "remove_c ''<em>Cocoa</em>'' = ''<em>ooa</em>''"
    by (simp_all add: remove_c_def)
  with substitution_order [of "[]" "''Cocoa''"] plain show ?thesis
    by simp
qed

text \<open>
  The claim as stated fails: the strip span around \<^verbatim>\<open>**c**\<close> gives \<^verbatim>\<open><b></b>\<close>, not the
  enclosed text without its \<^verbatim>\<open>c\<close>, and the hash span around \<^verbatim>\<open>**a**\<close> gives the digest of
  \<^verbatim>\<open><b>a</b>\<close>, not the digest of the enclosed text.
\<close>

theorem substitution_order_counterexample:
  "inline_substitutions (''(('' @ ''**c**'' @ ''))'') = ''<b></b>'' \<and>
   remove_c ''**c**'' = ''****'' \<and>
   inline_substitutions (''(('' @ ''**c**'' @ ''))'') \<noteq> remove_c ''**c**'' \<and>
   inline_substitutions (''[['' @ ''**a**'' @ '']]'') = ''d0d0b371e07faa35478d8dde673a8cc5'' \<and>
   md5_hash ''**a**'' = ''7344adec856fe1d08240951a9c75f676'' \<and>
   inline_substitutions (''[['' @ ''**a**'' @ '']]'') \<noteq> md5_hash ''**a**''"
proof -
  have strip: "inline_substitutions (''(('' @ ''**c**'' @ ''))'') = ''<b></b>''"
    using bold_in_strip [of "''c''"]
    by (simp add: no_markers_def newline_def remove_c_def)
  have hash: "inline_substitutions (''[['' @ ''**a**'' @ '']]'') = ''d0d0b371e07faa35478d8dde673a8cc5''"
    using bold_in_hash [of "''a''"]
    by (simp add: no_markers_def newline_def md5_hash_bold_a)
  have "remove_c ''**c**'' = ''****''"
    by (simp add: remove_c_def)
  with strip hash show ?thesis
    by (simp add: md5_hash_stars_a)
qed

lemma md5_hash_e_acute: "md5_hash [CHR 0xE9] = ''66ddcd97cfdeabb2f6fb8a999b4bc76f''"
  by code_simp

lemma md5_hash_em_a: "md5_hash ''<em>a</em>'' = ''b98e8d7aa819f035918d7839acc3bde8''"
  by code_simp

lemma md5_hash_unders_a: "md5_hash ''__a__'' = ''51fa8c77163362f852f39614244a0491''"
  by code_simp

lemma has_pair_Cons: "has_pair a s \<Longrightarrow> has_pair a (x # s)"
  by (cases s) auto

lemma has_pair_suffix: "has_pair a ys \<Longrightarrow> has_pair a (xs @ ys)"
  by (induction xs) (auto simp: has_pair_Cons)

lemma find_close_rest: "find_close b s = Some (g, r) \<Longrightarrow> set r \<subseteq> set s"
proof (induction b s arbitrary: g rule: find_close.induct)
  case (1 b x y rest)
  then show ?case
    by (fastforce split: if_splits)
qed simp_all

lemma re_sub_chars:
  "c \<notin> set s \<Longrightarrow> (\<And>g. c \<notin> set (repl g)) \<Longrightarrow> c \<notin> set (re_sub a b repl s)"
proof (induction a b repl s rule: re_sub.induct)
  case (1 a b repl x y rest)
  show ?case
  proof (cases "x = a \<and> y = a")
    case False
    with 1 show ?thesis by auto
  next
    case True
    show ?thesis
    proof (cases "find_close b rest")
      case None
      with True 1 show ?thesis by auto
    next
      case (Some gr)
      obtain g r where gr: "gr = (g, r)"
        by (cases gr)
      have "set r \<subseteq> set rest"
        using Some gr find_close_rest by blast
      then have "c \<notin> set r"
        using "1.prems"(1) by auto
      then have "c \<notin> set (re_sub a b repl r)"
        using "1.IH" True Some gr "1.prems"(2) by auto
      then show ?thesis
        using True Some gr "1.prems"(2) by simp
    qed
  qed
qed simp_all

lemma hash_only:
  assumes "\<not> has_pair CHR ''*'' s" "\<not> has_pair CHR ''_'' s"
  shows "inline_substitutions s =
     re_sub CHR ''('' CHR '')'' remove_c (re_sub CHR ''['' CHR '']'' md5_hash s)"
  using assms by (simp add: inline_substitutions_eq re_sub_no_pair)

lemma hash_no_paren:
  assumes "CHR ''('' \<notin> set s"
  shows "re_sub CHR ''('' CHR '')'' remove_c (re_sub CHR ''['' CHR '']'' md5_hash s) =
     re_sub CHR ''['' CHR '']'' md5_hash s"
  by (intro re_sub_absent re_sub_chars assms md5_hash_no_paren)

lemma hash_span_in_line:
  assumes stars: "\<not> has_pair CHR ''*'' (pre @ ''[['' @ inner @ '']]'' @ post)"
    and unders: "\<not> has_pair CHR ''_'' (pre @ ''[['' @ inner @ '']]'' @ post)"
    and parens: "CHR ''('' \<notin> set pre" "CHR ''('' \<notin> set post"
    and span: "\<not> has_pair CHR ''['' (pre @ ''['')" "\<not> has_pair CHR '']'' (inner @ '']'')"
      "newline \<notin> set inner"
  shows "inline_substitutions (pre @ ''[['' @ inner @ '']]'' @ post) =
     pre @ md5_hash inner @ inline_substitutions post"
proof -
  let ?hash = "re_sub CHR ''['' CHR '']'' md5_hash"
  have post: "\<not> has_pair CHR ''*'' post" "\<not> has_pair CHR ''_'' post"
    using stars unders has_pair_suffix [of _ post "pre @ ''[['' @ inner @ '']]''"] by auto
  have tail: "inline_substitutions post = ?hash post"
    by (simp add: hash_only [OF post] hash_no_paren [OF parens(2)])
  have step: "?hash (pre @ ''[['' @ inner @ '']]'' @ post) = pre @ md5_hash inner @ ?hash post"
    using re_sub_span [OF span, of md5_hash post] by simp
  have "CHR ''('' \<notin> set (pre @ md5_hash inner @ ?hash post)"
    using parens md5_hash_no_paren re_sub_chars [of "CHR ''(''" post md5_hash]
    by auto
  then have "re_sub CHR ''('' CHR '')'' remove_c (pre @ md5_hash inner @ ?hash post) =
      pre @ md5_hash inner @ ?hash post"
    by (rule re_sub_absent)
  then show ?thesis
    by (simp only: hash_only [OF stars unders] step tail)
qed

lemma hash_span_rewritten:
  assumes "re_sub CHR ''_'' CHR ''_'' (\<lambda>g. ''<em>'' @ g @ ''</em>'')
       (re_sub CHR ''*'' CHR ''*'' (\<lambda>g. ''<b>'' @ g @ ''</b>'') line) =
     pre @ ''[['' @ inner @ '']]'' @ post"
    and span: "\<not> has_pair CHR ''['' (pre @ ''['')" "\<not> has_pair CHR '']'' (inner @ '']'')"
      "newline \<notin> set inner"
  shows "inline_substitutions line =
     re_sub CHR ''('' CHR '')'' remove_c
       (pre @ md5_hash inner @ re_sub CHR ''['' CHR '']'' md5_hash post)"
proof -
  have "re_sub CHR ''['' CHR '']'' md5_hash (pre @ ''[['' @ inner @ '']]'' @ post) =
      pre @ md5_hash inner @ re_sub CHR ''['' CHR '']'' md5_hash post"
    using re_sub_span [OF span, of md5_hash post] by simp
  then show ?thesis
    by (simp only: inline_substitutions_eq assms(1))
qed

text \<open>
  C6, as amended: the hash substitution works on the line as the bold and emphasis
  substitutions have rewritten it, and the strip substitution works on its result.
  In the rewritten line a span \<^verbatim>\<open>[[inner]]\<close>, the first one (no \<^verbatim>\<open>[[\<close> begins before
  it) and non-greedy (no \<^verbatim>\<open>]]\<close> begins inside it, and no line feed), is replaced by the
  MD5 digest, in lowercase hexadecimal, of the text \<open>inner\<close> it encloses there,
  encoded as UTF-8; the delimiters and \<open>inner\<close> are discarded, the text before the
  span is kept and the spans after it are replaced in turn; the strip substitution
  then runs over all of it, the digest included. When the line has no \<^verbatim>\<open>**\<close> and no
  \<^verbatim>\<open>__\<close>, and no \<^verbatim>\<open>(\<close> outside the span, the line after the four substitutions is the
  text before the span, the digest of the enclosed text, and the substituted rest.
  The digest of \<^verbatim>\<open>abc\<close> is \<^verbatim>\<open>900150983cd24fb0d6963f7d28e17f72\<close>, that of the two UTF-8
  bytes of e acute is \<^verbatim>\<open>66ddcd97cfdeabb2f6fb8a999b4bc76f\<close>, and the line
  \<^verbatim>\<open>see [[abc]] here\<close> becomes a paragraph with the digest in place of the span.
\<close>

theorem hash_span_replaced:
  "(re_sub CHR ''_'' CHR ''_'' (\<lambda>g. ''<em>'' @ g @ ''</em>'')
        (re_sub CHR ''*'' CHR ''*'' (\<lambda>g. ''<b>'' @ g @ ''</b>'') line) =
      pre @ ''[['' @ inner @ '']]'' @ post \<and>
    \<not> has_pair CHR ''['' (pre @ ''['') \<and> \<not> has_pair CHR '']'' (inner @ '']'') \<and>
    newline \<notin> set inner \<longrightarrow>
    inline_substitutions line =
      re_sub CHR ''('' CHR '')'' remove_c
        (pre @ md5_hash inner @ re_sub CHR ''['' CHR '']'' md5_hash post)) \<and>
   (\<not> has_pair CHR ''*'' (pre @ ''[['' @ inner @ '']]'' @ post) \<and>
    \<not> has_pair CHR ''_'' (pre @ ''[['' @ inner @ '']]'' @ post) \<and>
    CHR ''('' \<notin> set pre \<and> CHR ''('' \<notin> set post \<and>
    \<not> has_pair CHR ''['' (pre @ ''['') \<and> \<not> has_pair CHR '']'' (inner @ '']'') \<and>
    newline \<notin> set inner \<longrightarrow>
    inline_substitutions (pre @ ''[['' @ inner @ '']]'' @ post) =
      pre @ md5_hash inner @ inline_substitutions post) \<and>
   md5_hash ''abc'' = ''900150983cd24fb0d6963f7d28e17f72'' \<and>
   md5_hash [CHR 0xE9] = ''66ddcd97cfdeabb2f6fb8a999b4bc76f'' \<and>
   markdown_to_html_line ''see [[abc]] here'' False False False =
     Inr (''<p>'' @ [newline] @ ''    see 900150983cd24fb0d6963f7d28e17f72 here'',
          False, False, True)"
proof (intro conjI impI)
  assume "re_sub CHR ''_'' CHR ''_'' (\<lambda>g. ''<em>'' @ g @ ''</em>'')
        (re_sub CHR ''*'' CHR ''*'' (\<lambda>g. ''<b>'' @ g @ ''</b>'') line) =
      pre @ ''[['' @ inner @ '']]'' @ post \<and>
    \<not> has_pair CHR ''['' (pre @ ''['') \<and> \<not> has_pair CHR '']'' (inner @ '']'') \<and>
    newline \<notin> set inner"
  then show "inline_substitutions line =
      re_sub CHR ''('' CHR '')'' remove_c
        (pre @ md5_hash inner @ re_sub CHR ''['' CHR '']'' md5_hash post)"
    using hash_span_rewritten [of line pre inner post] by blast
next
  assume "\<not> has_pair CHR ''*'' (pre @ ''[['' @ inner @ '']]'' @ post) \<and>
    \<not> has_pair CHR ''_'' (pre @ ''[['' @ inner @ '']]'' @ post) \<and>
    CHR ''('' \<notin> set pre \<and> CHR ''('' \<notin> set post \<and>
    \<not> has_pair CHR ''['' (pre @ ''['') \<and> \<not> has_pair CHR '']'' (inner @ '']'') \<and>
    newline \<notin> set inner"
  then show "inline_substitutions (pre @ ''[['' @ inner @ '']]'' @ post) =
      pre @ md5_hash inner @ inline_substitutions post"
    using hash_span_in_line [of pre inner post] by blast
next
  show "md5_hash ''abc'' = ''900150983cd24fb0d6963f7d28e17f72''"
    by (rule md5_hash_abc)
next
  show "md5_hash [CHR 0xE9] = ''66ddcd97cfdeabb2f6fb8a999b4bc76f''"
    by (rule md5_hash_e_acute)
next
  have s: "inline_substitutions ''see [[abc]] here'' =
      ''see 900150983cd24fb0d6963f7d28e17f72 here''"
    by (simp add: inline_substitutions_def md5_hash_abc newline_def)
  show "markdown_to_html_line ''see [[abc]] here'' False False False =
     Inr (''<p>'' @ [newline] @ ''    see 900150983cd24fb0d6963f7d28e17f72 here'',
          False, False, True)"
    using paragraph_case
      [of "''see 900150983cd24fb0d6963f7d28e17f72 here''" "''see [[abc]] here''" False False False]
    by (simp add: s is_heading_def startswith_def upt_rec replicate_small)
qed

theorem hash_span_replaced_witness:
  "inline_substitutions ''__x__ (([[abc]]))'' = ''<em>x</em> 900150983d24fb0d6963f7d28e17f72'' \<and>
   inline_substitutions ''see [[abc]] and [[abc]]'' =
     ''see 900150983cd24fb0d6963f7d28e17f72 and 900150983cd24fb0d6963f7d28e17f72''"
proof -
  let ?em = "\<lambda>g. ''<em>'' @ g @ ''</em>''"
  let ?bold = "\<lambda>g. ''<b>'' @ g @ ''</b>''"
  note digest = hash_span_replaced [of "[]" "[]" "[]" "[]", THEN conjunct2, THEN conjunct2,
      THEN conjunct1]
  have rewritten: "re_sub CHR ''_'' CHR ''_'' ?em (re_sub CHR ''*'' CHR ''*'' ?bold
        ''__x__ (([[abc]]))'') = ''<em>x</em> (('' @ ''[['' @ ''abc'' @ '']]'' @ ''))''"
    by (simp add: newline_def)
  have span: "\<not> has_pair CHR ''['' (''<em>x</em> (('' @ ''['')"
    "\<not> has_pair CHR '']'' (''abc'' @ '']'')" "newline \<notin> set ''abc''"
    by (simp_all add: newline_def)
  have first: "re_sub CHR ''_'' CHR ''_'' ?em (re_sub CHR ''*'' CHR ''*'' ?bold
        ''__x__ (([[abc]]))'') = ''<em>x</em> (('' @ ''[['' @ ''abc'' @ '']]'' @ ''))'' \<and>
      \<not> has_pair CHR ''['' (''<em>x</em> (('' @ ''['') \<and>
      \<not> has_pair CHR '']'' (''abc'' @ '']'') \<and> newline \<notin> set ''abc''"
    using rewritten span by blast
  note a = hash_span_replaced [of "''__x__ (([[abc]]))''" "''<em>x</em> ((''" "''abc''" "''))''",
      THEN conjunct1, THEN mp, OF first]
  have stripped: "re_sub CHR ''('' CHR '')'' remove_c
      (''<em>x</em> (('' @ ''900150983cd24fb0d6963f7d28e17f72'' @
       re_sub CHR ''['' CHR '']'' md5_hash ''))'') =
      ''<em>x</em> 900150983d24fb0d6963f7d28e17f72''"
    by (simp add: newline_def remove_c_def)
  have one: "inline_substitutions ''__x__ (([[abc]]))'' =
      ''<em>x</em> 900150983d24fb0d6963f7d28e17f72''"
    using a stripped by (simp only: digest)
  have second: "\<not> has_pair CHR ''*'' (''see '' @ ''[['' @ ''abc'' @ '']]'' @ '' and [[abc]]'') \<and>
      \<not> has_pair CHR ''_'' (''see '' @ ''[['' @ ''abc'' @ '']]'' @ '' and [[abc]]'') \<and>
      CHR ''('' \<notin> set ''see '' \<and> CHR ''('' \<notin> set '' and [[abc]]'' \<and>
      \<not> has_pair CHR ''['' (''see '' @ ''['') \<and> \<not> has_pair CHR '']'' (''abc'' @ '']'') \<and>
      newline \<notin> set ''abc''"
    by (simp add: newline_def)
  have third: "\<not> has_pair CHR ''*'' ('' and '' @ ''[['' @ ''abc'' @ '']]'' @ []) \<and>
      \<not> has_pair CHR ''_'' ('' and '' @ ''[['' @ ''abc'' @ '']]'' @ []) \<and>
      CHR ''('' \<notin> set '' and '' \<and> CHR ''('' \<notin> set [] \<and>
      \<not> has_pair CHR ''['' ('' and '' @ ''['') \<and> \<not> has_pair CHR '']'' (''abc'' @ '']'') \<and>
      newline \<notin> set ''abc''"
    by (simp add: newline_def)
  note b = hash_span_replaced [of "[]" "''see ''" "''abc''" "'' and [[abc]]''",
      THEN conjunct2, THEN conjunct1, THEN mp, OF second]
  note c = hash_span_replaced [of "[]" "'' and ''" "''abc''" "[]",
      THEN conjunct2, THEN conjunct1, THEN mp, OF third]
  have empty: "inline_substitutions [] = []"
    by (simp add: inline_substitutions_def)
  have two: "inline_substitutions ''see [[abc]] and [[abc]]'' =
      ''see 900150983cd24fb0d6963f7d28e17f72 and 900150983cd24fb0d6963f7d28e17f72''"
    using b c by (simp add: digest empty)
  from one two show ?thesis
    by blast
qed

text \<open>
  The claim as stated fails for a line: inside a strip span the digest of \<^verbatim>\<open>abc\<close>
  loses its \<^verbatim>\<open>c\<close> and the parentheses around the hash span are removed, so the line
  does not hold the literal digest and the surrounding text is not untouched; and
  the hash span around \<^verbatim>\<open>__a__\<close> gives the digest of \<^verbatim>\<open><em>a</em>\<close>, not that of the
  enclosed text.
\<close>

theorem hash_span_replaced_counterexample:
  "inline_substitutions ''(([[abc]]))'' = ''900150983d24fb0d6963f7d28e17f72'' \<and>
   md5_hash ''abc'' = ''900150983cd24fb0d6963f7d28e17f72'' \<and>
   inline_substitutions ''(([[abc]]))'' \<noteq> ''(('' @ md5_hash ''abc'' @ ''))'' \<and>
   markdown_to_html_line ''(([[abc]]))'' False False False =
     Inr (''<p>'' @ [newline] @ ''    900150983d24fb0d6963f7d28e17f72'', False, False, True) \<and>
   inline_substitutions ''[[__a__]]'' = ''b98e8d7aa819f035918d7839acc3bde8'' \<and>
   md5_hash ''__a__'' = ''51fa8c77163362f852f39614244a0491'' \<and>
   inline_substitutions ''[[__a__]]'' \<noteq> md5_hash ''__a__''"
proof -
  have s: "inline_substitutions ''(([[abc]]))'' =
      ''900150983d24fb0d6963f7d28e17f72''"
    by (simp add: inline_substitutions_def md5_hash_abc newline_def remove_c_def)
  have line: "markdown_to_html_line ''(([[abc]]))'' False False False =
     Inr (''<p>'' @ [newline] @ ''    900150983d24fb0d6963f7d28e17f72'', False, False, True)"
    using paragraph_case
      [of "''900150983d24fb0d6963f7d28e17f72''" "''(([[abc]]))''" False False False]
    by (simp add: s is_heading_def startswith_def upt_rec replicate_small)
  have em: "inline_substitutions ''[[__a__]]'' = ''b98e8d7aa819f035918d7839acc3bde8''"
    using em_in_hash [of "''a''"]
    by (simp add: no_markers_def newline_def md5_hash_em_a)
  from s line em show ?thesis
    by (simp add: md5_hash_abc md5_hash_unders_a)
qed

subsection \<open>Plain text\<close>

lemma strip_subset: "set (strip l) \<subseteq> set l"
proof -
  have "set (rev (dropWhile isspace (rev (dropWhile isspace l)))) \<subseteq> set (dropWhile isspace l)"
    using set_dropWhileD [of _ isspace "rev (dropWhile isspace l)"] by auto
  also have "\<dots> \<subseteq> set l"
    using set_dropWhileD [of _ isspace l] by auto
  finally show ?thesis
    by (simp add: strip_def lstrip_def rstrip_def)
qed

lemma plain_line_strip: "plain_line l \<Longrightarrow> plain_line (strip l)"
  using strip_subset [of l] by (auto simp: plain_line_def list_all_iff)

lemma plain_line_absent:
  assumes "plain_line s"
  shows "CHR ''#'' \<notin> set s" "CHR ''-'' \<notin> set s" "CHR ''*'' \<notin> set s" "CHR ''_'' \<notin> set s"
    "CHR ''['' \<notin> set s" "CHR ''('' \<notin> set s"
  using assms by (auto simp: plain_line_def markdown_special_def list_all_iff)

lemma plain_line_unchanged: "plain_line s \<Longrightarrow> inline_substitutions s = s"
  by (simp add: inline_substitutions_def re_sub_absent plain_line_absent)

lemma plain_line_paragraph:
  assumes "plain_line s" "s \<noteq> []"
  shows "markdown_to_html_line s u v p =
     Inr ((if p then ''    <br />'' else ''<p>'') @ [newline] @ ''    '' @ s, False, False, True)"
proof -
  obtain c t where s: "s = c # t"
    using assms(2) by (cases s) auto
  have c: "c \<noteq> CHR ''#''" "c \<noteq> CHR ''-''" "c \<noteq> CHR ''*''"
    using plain_line_absent [OF assms(1)] by (auto simp: s)
  show ?thesis
  proof (rule paragraph_case)
    show "s = inline_substitutions s"
      by (simp add: plain_line_unchanged assms(1))
    show "\<not> is_heading s"
      unfolding s using c(1) by (rule list_item_not_heading)
    show "\<not> startswith s ''- ''" "\<not> startswith s ''* ''"
      using c by (simp_all add: s startswith_def)
    show "s \<noteq> []"
      by (rule assms(2))
  qed
qed

lemma scan_plain:
  assumes "list_all plain_line lines"
  shows "\<exists>st. scan_loop lines (acc, False, False, p) = Inr st \<and>
     close_open_blocks st =
       acc @ (if p
              then map (\<lambda>x. ''    <br />'' @ [newline] @ ''    '' @ x)
                     (takeWhile (\<lambda>x. x \<noteq> []) (map strip lines)) @ [''</p>''] @
                   concat (map para_block (runs (dropWhile (\<lambda>x. x \<noteq> []) (map strip lines))))
              else concat (map para_block (runs (map strip lines))))"
  using assms
proof (induction lines arbitrary: acc p)
  case Nil
  then show ?case
    by (simp add: close_open_blocks_def)
next
  case (Cons l lines)
  then have l: "plain_line (strip l)" and rest: "list_all plain_line lines"
    by (simp_all add: plain_line_strip)
  show ?case
  proof (cases "strip l = []")
    case True
    have step: "markdown_to_html_line (strip l) False False p =
        Inr (if p then ''</p>'' else [], False, False, False)"
      by (simp add: True blank_case)
    from Cons.IH [OF rest, of "if p then acc @ [''</p>''] else acc" False]
    show ?thesis
      by (auto simp: True blank_case)
  next
    case False
    have step: "markdown_to_html_line (strip l) False False p =
        Inr ((if p then ''    <br />'' else ''<p>'') @ [newline] @ ''    '' @ strip l,
             False, False, True)"
      by (rule plain_line_paragraph [OF l False])
    from Cons.IH [OF rest,
        of "acc @ [(if p then ''    <br />'' else ''<p>'') @ [newline] @ ''    '' @ strip l]" True]
    show ?thesis
      by (auto simp: step False)
  qed
qed

text \<open>
  C7: for a document of plain lines the driver's fragments are the paragraph blocks
  of the maximal runs of non-blank lines, in order and nothing else: a blank line
  only separates, closing the block before it, and the block of the last run is
  closed by the end of the document. The program writes these fragments, joined by
  line feeds, to the output file.
\<close>

theorem plain_text_paragraphs:
  "(list_all plain_line lines \<longrightarrow>
      convert lines = Inr (concat (map para_block (runs (map strip lines))))) \<and>
   (list_all plain_line lines \<and> 3 \<le> length argv \<and> isfile sys (argv ! 1) \<and>
      readlines sys (argv ! 1) = Inr lines \<longrightarrow>
      io (main sys argv) =
        [Read_file (argv ! 1),
         Write_file (argv ! 2)
           (join [newline] (concat (map para_block (runs (map strip lines)))))])"
proof -
  have conv: "convert lines = Inr (concat (map para_block (runs (map strip lines))))"
    if "list_all plain_line lines"
    using scan_plain [OF that, of "[]" False] by (auto simp: convert_def)
  show ?thesis
  proof (intro conjI impI)
    assume "list_all plain_line lines"
    then show "convert lines = Inr (concat (map para_block (runs (map strip lines))))"
      by (rule conv)
  next
    assume h: "list_all plain_line lines \<and> 3 \<le> length argv \<and> isfile sys (argv ! 1) \<and>
      readlines sys (argv ! 1) = Inr lines"
    then have "convert lines = Inr (concat (map para_block (runs (map strip lines))))"
      by (simp add: conv)
    with h show "io (main sys argv) =
        [Read_file (argv ! 1),
         Write_file (argv ! 2)
           (join [newline] (concat (map para_block (runs (map strip lines)))))]"
      by (auto simp: main_def Let_def split: option.splits)
  qed
qed

theorem plain_text_paragraphs_witness:
  "list_all plain_line [''one'' @ [newline], '' two '' @ [newline], [newline], ''three''] \<and>
   convert [''one'' @ [newline], '' two '' @ [newline], [newline], ''three''] =
     Inr [''<p>'' @ [newline] @ ''    one'', ''    <br />'' @ [newline] @ ''    two'', ''</p>'',
          ''<p>'' @ [newline] @ ''    three'', ''</p>''] \<and>
   io (main \<lparr>isfile = (\<lambda>path. True),
             readlines =
               (\<lambda>path. Inr [''one'' @ [newline], '' two '' @ [newline], [newline], ''three'']),
             write_file = (\<lambda>path text. None)\<rparr>
         [''./markdown2html.py'', ''in.md'', ''out.html'']) =
     [Read_file ''in.md'',
      Write_file ''out.html''
        (''<p>'' @ [newline] @ ''    one'' @ [newline] @ ''    <br />'' @ [newline] @
         ''    two'' @ [newline] @ ''</p>'' @ [newline] @ ''<p>'' @ [newline] @
         ''    three'' @ [newline] @ ''</p>'')]"
proof -
  let ?lines = "[''one'' @ [newline], '' two '' @ [newline], [newline], ''three'']"
  let ?sys = "\<lparr>isfile = (\<lambda>path. True), readlines = (\<lambda>path. Inr ?lines),
               write_file = (\<lambda>path text. None)\<rparr>"
  let ?argv = "[''./markdown2html.py'', ''in.md'', ''out.html'']"
  have plain: "list_all plain_line ?lines"
    by code_simp
  have blocks: "concat (map para_block (runs (map strip ?lines))) =
      [''<p>'' @ [newline] @ ''    one'', ''    <br />'' @ [newline] @ ''    two'', ''</p>'',
       ''<p>'' @ [newline] @ ''    three'', ''</p>'']"
    by code_simp
  have joined: "join [newline]
      [''<p>'' @ [newline] @ ''    one'', ''    <br />'' @ [newline] @ ''    two'', ''</p>'',
       ''<p>'' @ [newline] @ ''    three'', ''</p>''] =
      ''<p>'' @ [newline] @ ''    one'' @ [newline] @ ''    <br />'' @ [newline] @
      ''    two'' @ [newline] @ ''</p>'' @ [newline] @ ''<p>'' @ [newline] @
      ''    three'' @ [newline] @ ''</p>''"
    by simp
  have given: "list_all plain_line ?lines \<and> 3 \<le> length ?argv \<and> isfile ?sys (?argv ! 1) \<and>
      readlines ?sys (?argv ! 1) = Inr ?lines"
    using plain by simp
  note conv = plain_text_paragraphs [of ?lines ?argv ?sys, THEN conjunct1, THEN mp, OF plain]
  note run = plain_text_paragraphs [of ?lines ?argv ?sys, THEN conjunct2, THEN mp, OF given]
  from plain conv [unfolded blocks] run [unfolded blocks joined]
  show ?thesis
    by simp
qed

end
